theory Spec2Isabelle
  imports Main
begin

section \<open>Data model\<close>

text \<open>
  The tables of \<^verbatim>\<open>app/models/verse.py\<close> and \<^verbatim>\<open>app/models/daily_selection.py\<close>.
  Python integers are \<open>int\<close>; a calendar date is its proleptic ordinal, a timestamp the
  reading of the database clock. The primary keys \<^verbatim>\<open>Verse.id\<close> and
  \<^verbatim>\<open>DailySelection.id\<close> are the fields \<open>v_id\<close> and \<open>ds_id\<close>, the column
  \<^verbatim>\<open>Verse.chapter\<close> is the field \<open>chapter_no\<close>.
\<close>

type_synonym date = int
type_synonym timestamp = int

record Verse =
  v_id :: int
  book :: string
  chapter_no :: int
  verse :: int
  text_kjv :: string

record DailySelection =
  ds_id :: int
  date :: date
  verse_id :: int
  created_at :: timestamp

text \<open>The database behind a session: the rows of the two tables, in table order.\<close>

record Db =
  verses :: "Verse list"
  daily_selections :: "DailySelection list"

text \<open>\<^verbatim>\<open>app/core/config.py\<close>: the process-wide settings; \<open>seed\<close> defaults to \<open>None\<close>.\<close>

record Settings =
  app_name :: string
  timezone :: string
  database_url :: string
  seed :: "int option"

text \<open>
  The exceptions a call can end with: the \<^verbatim>\<open>ValueError\<close> of line 57 (all verses
  exhausted), the \<^verbatim>\<open>IntegrityError\<close> of the unique constraint \<^verbatim>\<open>uq_date\<close> at commit,
  the \<^verbatim>\<open>assert\<close> of line 64 and the \<^verbatim>\<open>IndexError\<close> of \<^verbatim>\<open>random.choice\<close>.
\<close>

datatype error = Exhausted | Conflict | AssertionError | IndexError

text \<open>
  A selector holds its session and its own \<^verbatim>\<open>random.Random\<close>, whose state has type \<open>'g\<close>.
\<close>

record 'g VerseSelector =
  db :: Db
  random :: 'g

section \<open>The random source\<close>

text \<open>
  \<^verbatim>\<open>random.Random\<close> belongs to the Python library, so its two operations are parameters:
  \<open>rb n g\<close> is \<^verbatim>\<open>_randbelow(n)\<close> in state \<open>g\<close> (the number drawn and the next state),
  \<open>seedf a\<close> the state after seeding with the integer \<open>a\<close>. The library promises a number
  below \<open>n\<close> for every positive \<open>n\<close>.
\<close>

definition rng_ok :: "(nat \<Rightarrow> 'g \<Rightarrow> nat \<times> 'g) \<Rightarrow> bool" where
  "rng_ok rb = (\<forall>n g. 0 < n \<longrightarrow> fst (rb n g) < n)"

text \<open>
  \<^verbatim>\<open>random.Random(x)\<close>: seeded from \<open>x\<close>, or from the operating system's entropy when
  \<open>x\<close> is \<open>None\<close>; \<open>entropy\<close> is the state that this construction draws from the system.
\<close>

definition Random :: "(int \<Rightarrow> 'g) \<Rightarrow> 'g \<Rightarrow> int option \<Rightarrow> 'g" where
  "Random seedf entropy x = (case x of None \<Rightarrow> entropy | Some a \<Rightarrow> seedf a)"

text \<open>
  \<^verbatim>\<open>random.choice(seq)\<close>: \<^verbatim>\<open>IndexError\<close> on an empty sequence, otherwise
  \<^verbatim>\<open>seq[_randbelow(len(seq))]\<close>.
\<close>

definition choice ::
  "(nat \<Rightarrow> 'g \<Rightarrow> nat \<times> 'g) \<Rightarrow> 'a list \<Rightarrow> 'g \<Rightarrow> (error + 'a) \<times> 'g" where
  "choice rb seq g =
     (if seq = [] then (Inl IndexError, g)
      else (let (i, g') = rb (length seq) g
            in if i < length seq then (Inr (seq ! i), g') else (Inl IndexError, g')))"

section \<open>The selector\<close>

text \<open>
  Line 21, \<^verbatim>\<open>seed or settings.seed\<close>: Python's \<^verbatim>\<open>or\<close> yields its left operand when that
  is truthy, and \<open>None\<close> and \<open>0\<close> are not.
\<close>

definition seed_or :: "int option \<Rightarrow> int option \<Rightarrow> int option" where
  "seed_or seed_arg dflt =
     (case seed_arg of None \<Rightarrow> dflt | Some s \<Rightarrow> if s = 0 then dflt else Some s)"

definition VerseSelector_init ::
  "(int \<Rightarrow> 'g) \<Rightarrow> 'g \<Rightarrow> Settings \<Rightarrow> Db \<Rightarrow> int option \<Rightarrow> 'g VerseSelector" where
  "VerseSelector_init seedf entropy settings dbs seed_arg =
     \<lparr>db = dbs, random = Random seedf entropy (seed_or seed_arg (seed settings))\<rparr>"

text \<open>Line 27: the row for the date, \<open>None\<close> when there is none.\<close>

definition find_selection :: "date \<Rightarrow> Db \<Rightarrow> DailySelection option" where
  "find_selection d dbs = List.find (\<lambda>s. date s = d) (daily_selections dbs)"

text \<open>Lines 48 and 63: the verse with a given primary key.\<close>

definition find_verse :: "int \<Rightarrow> Db \<Rightarrow> Verse option" where
  "find_verse i dbs = List.find (\<lambda>v. v_id v = i) (verses dbs)"

text \<open>Line 41.\<close>

definition used_ids :: "Db \<Rightarrow> int set" where
  "used_ids dbs = set (map verse_id (daily_selections dbs))"

text \<open>Lines 43 to 45: the first row in descending order of date.\<close>

definition last_selection :: "Db \<Rightarrow> DailySelection option" where
  "last_selection dbs =
     (case sort_key (\<lambda>s. - date s) (daily_selections dbs) of
        [] \<Rightarrow> None
      | s # _ \<Rightarrow> Some s)"

text \<open>Lines 46 to 50.\<close>

definition last_chapter :: "Db \<Rightarrow> (string \<times> int) option" where
  "last_chapter dbs =
     (case last_selection dbs of
        None \<Rightarrow> None
      | Some ls \<Rightarrow>
          (case find_verse (verse_id ls) dbs of
             None \<Rightarrow> None
           | Some lv \<Rightarrow> Some (book lv, chapter_no lv)))"

text \<open>Lines 53 to 55: the rows \<open>(id, book, chapter)\<close> of the verses not used yet.\<close>

definition candidates :: "Db \<Rightarrow> (int \<times> string \<times> int) list" where
  "candidates dbs =
     map (\<lambda>v. (v_id v, book v, chapter_no v))
       (filter (\<lambda>v. v_id v \<notin> used_ids dbs) (verses dbs))"

text \<open>Lines 60 and 61.\<close>

definition filtered :: "Db \<Rightarrow> (int \<times> string \<times> int) list" where
  "filtered dbs =
     filter (\<lambda>(i, b, c). Some (b, c) \<noteq> last_chapter dbs) (candidates dbs)"

definition pool :: "Db \<Rightarrow> (int \<times> string \<times> int) list" where
  "pool dbs = (if filtered dbs \<noteq> [] then filtered dbs else candidates dbs)"

text \<open>\<^verbatim>\<open>_pick_new_verse\<close>, lines 39 to 65. Only the random state changes.\<close>

definition pick_new_verse ::
  "(nat \<Rightarrow> 'g \<Rightarrow> nat \<times> 'g) \<Rightarrow> 'g VerseSelector \<Rightarrow> (error + Verse) \<times> 'g VerseSelector" where
  "pick_new_verse rb sel =
     (if candidates (db sel) = [] then (Inl Exhausted, sel)
      else
        (case choice rb (pool (db sel)) (random sel) of
           (Inl e, g') \<Rightarrow> (Inl e, sel\<lparr>random := g'\<rparr>)
         | (Inr (i, b, c), g') \<Rightarrow>
             (case find_verse i (db sel) of
                None \<Rightarrow> (Inl AssertionError, sel\<lparr>random := g'\<rparr>)
              | Some v \<Rightarrow> (Inr v, sel\<lparr>random := g'\<rparr>))))"

text \<open>
  Lines 33 to 36: the insert, its commit and the refresh. The database gives the row the
  next \<^verbatim>\<open>id\<close> and its clock as \<^verbatim>\<open>created_at\<close>, and refuses a second row for a
  date. The next \<^verbatim>\<open>id\<close> is that of SQLite, the configured default: 1 in an empty table,
  otherwise one more than the largest in use, whatever its sign. Ids are unbounded here;
  at the largest 64-bit id SQLite draws an unused one at random instead, a case left out.
\<close>

definition next_id :: "DailySelection list \<Rightarrow> int" where
  "next_id rows =
     (case rows of
        [] \<Rightarrow> 1
      | r # rs \<Rightarrow> fold max (map ds_id rs) (ds_id r) + 1)"

definition insert_selection ::
  "timestamp \<Rightarrow> date \<Rightarrow> int \<Rightarrow> Db \<Rightarrow> error + (DailySelection \<times> Db)" where
  "insert_selection now d vid dbs =
     (if d \<in> set (map date (daily_selections dbs)) then Inl Conflict
      else
        (let row = \<lparr>ds_id = next_id (daily_selections dbs), date = d,
                    verse_id = vid, created_at = now\<rparr>
         in Inr (row, dbs\<lparr>daily_selections := daily_selections dbs @ [row]\<rparr>)))"

text \<open>\<^verbatim>\<open>get_for_date\<close>, lines 26 to 37; \<open>now\<close> is the database clock at the commit.\<close>

definition get_for_date ::
  "(nat \<Rightarrow> 'g \<Rightarrow> nat \<times> 'g) \<Rightarrow> timestamp \<Rightarrow> date \<Rightarrow> 'g VerseSelector
     \<Rightarrow> (error + DailySelection) \<times> 'g VerseSelector" where
  "get_for_date rb now target_date sel =
     (case find_selection target_date (db sel) of
        Some existing \<Rightarrow> (Inr existing, sel)
      | None \<Rightarrow>
          (case pick_new_verse rb sel of
             (Inl e, sel') \<Rightarrow> (Inl e, sel')
           | (Inr v, sel') \<Rightarrow>
               (case insert_selection now target_date (v_id v) (db sel') of
                  Inl e \<Rightarrow> (Inl e, sel')
                | Inr (row, dbs') \<Rightarrow> (Inr row, sel'\<lparr>db := dbs'\<rparr>))))"

text \<open>
  The loop of \<^verbatim>\<open>tests/test_selection.py\<close> and \<^verbatim>\<open>scripts/schedule_verses.py\<close>: one call
  for each date in turn, collecting the selections; an exception ends the loop.
\<close>

fun get_for_dates ::
  "(nat \<Rightarrow> 'g \<Rightarrow> nat \<times> 'g) \<Rightarrow> (timestamp \<times> date) list \<Rightarrow> 'g VerseSelector
     \<Rightarrow> (error + DailySelection list) \<times> 'g VerseSelector" where
  "get_for_dates rb [] sel = (Inr [], sel)"
| "get_for_dates rb ((now, d) # reqs) sel =
     (case get_for_date rb now d sel of
        (Inl e, sel') \<Rightarrow> (Inl e, sel')
      | (Inr a, sel') \<Rightarrow>
          (case get_for_dates rb reqs sel' of
             (Inl e, sel'') \<Rightarrow> (Inl e, sel'')
           | (Inr as, sel'') \<Rightarrow> (Inr (a # as), sel'')))"

text \<open>
  The same call next to other sessions. The selector takes no lock and opens no
  transaction around lines 27 to 35, so another session can commit between the lookup of
  line 27 and the commit of line 35; \<open>other\<close> is what such sessions did to the tables by
  the time of the commit. There is no \<^verbatim>\<open>try\<close> around the commit: what it raises leaves
  \<^verbatim>\<open>get_for_date\<close>.
\<close>

definition get_for_date_raced ::
  "(Db \<Rightarrow> Db) \<Rightarrow> (nat \<Rightarrow> 'g \<Rightarrow> nat \<times> 'g) \<Rightarrow> timestamp \<Rightarrow> date \<Rightarrow> 'g VerseSelector
     \<Rightarrow> (error + DailySelection) \<times> 'g VerseSelector" where
  "get_for_date_raced other rb now target_date sel =
     (case find_selection target_date (db sel) of
        Some existing \<Rightarrow> (Inr existing, sel)
      | None \<Rightarrow>
          (case pick_new_verse rb sel of
             (Inl e, sel') \<Rightarrow> (Inl e, sel')
           | (Inr v, sel') \<Rightarrow>
               (case insert_selection now target_date (v_id v) (other (db sel')) of
                  Inl e \<Rightarrow> (Inl e, sel'\<lparr>db := other (db sel')\<rparr>)
                | Inr (row, dbs') \<Rightarrow> (Inr row, sel'\<lparr>db := dbs'\<rparr>))))"

section \<open>Sample data\<close>

text \<open>
  A small generator standing in for the library's, and the catalog of
  \<^verbatim>\<open>tests/test_selection.py\<close>, for evaluating the definitions on concrete inputs.
\<close>

definition sample_randbelow :: "nat \<Rightarrow> nat \<Rightarrow> nat \<times> nat" where
  "sample_randbelow n g = (g mod n, (g * 5 + 3) mod 16)"

definition sample_seed :: "int \<Rightarrow> nat" where
  "sample_seed a = nat \<bar>a\<bar> mod 16"

definition sample_verses :: "Verse list" where
  "sample_verses =
     [\<lparr>v_id = 1, book = ''Genesis'', chapter_no = 1, verse = 1, text_kjv = ''KJV G1:1''\<rparr>,
      \<lparr>v_id = 2, book = ''Genesis'', chapter_no = 1, verse = 2, text_kjv = ''KJV G1:2''\<rparr>,
      \<lparr>v_id = 3, book = ''Genesis'', chapter_no = 2, verse = 1, text_kjv = ''KJV G2:1''\<rparr>,
      \<lparr>v_id = 4, book = ''Exodus'', chapter_no = 1, verse = 1, text_kjv = ''KJV E1:1''\<rparr>,
      \<lparr>v_id = 5, book = ''Exodus'', chapter_no = 1, verse = 2, text_kjv = ''KJV E1:2''\<rparr>]"

definition sample_db :: Db where
  "sample_db = \<lparr>verses = sample_verses, daily_selections = []\<rparr>"

text \<open>
  A history entered out of order: Genesis 2:1 on day 4, Exodus 1:1 on day 20, Genesis 1:1
  on day 10.
\<close>

definition sample_history :: "DailySelection list" where
  "sample_history =
     [\<lparr>ds_id = 1, date = 4, verse_id = 3, created_at = 100\<rparr>,
      \<lparr>ds_id = 2, date = 20, verse_id = 4, created_at = 101\<rparr>,
      \<lparr>ds_id = 3, date = 10, verse_id = 1, created_at = 102\<rparr>]"

definition sample_db_used :: Db where
  "sample_db_used = \<lparr>verses = sample_verses, daily_selections = sample_history\<rparr>"

text \<open>A selector over that history whose next draw below 2 is 1 and below 1 is 0.\<close>

definition sample_selector :: "nat VerseSelector" where
  "sample_selector = \<lparr>db = sample_db_used, random = 3\<rparr>"

text \<open>The same history after day 5 took Genesis 1:2: only Exodus 1:2 is left.\<close>

definition sample_db_forced :: Db where
  "sample_db_forced =
     \<lparr>verses = sample_verses,
      daily_selections =
        sample_history @ [\<lparr>ds_id = 4, date = 5, verse_id = 2, created_at = 103\<rparr>]\<rparr>"

text \<open>The row another session commits for day 10 while this one is still choosing.\<close>

definition rival_row :: DailySelection where
  "rival_row = \<lparr>ds_id = 1, date = 10, verse_id = 3, created_at = 7\<rparr>"

definition rival_commit :: "Db \<Rightarrow> Db" where
  "rival_commit dbs = dbs\<lparr>daily_selections := daily_selections dbs @ [rival_row]\<rparr>"

text \<open>Five consecutive days, as in the test, each with the clock at its commit.\<close>

definition sample_requests :: "(timestamp \<times> date) list" where
  "sample_requests = [(100, 10), (101, 11), (102, 12), (103, 13), (104, 14)]"

text \<open>A catalog of exactly one verse, used on day 1.\<close>

definition sample_db_single :: Db where
  "sample_db_single =
     \<lparr>verses = [\<lparr>v_id = 1, book = ''John'', chapter_no = 3, verse = 16,
                 text_kjv = ''KJV J3:16''\<rparr>],
      daily_selections = [\<lparr>ds_id = 1, date = 1, verse_id = 1, created_at = 100\<rparr>]\<rparr>"

definition default_settings :: Settings where
  "default_settings =
     \<lparr>app_name = ''Bible Verse of the Day'', timezone = ''UTC'',
      database_url = ''sqlite:///./bible.db'', seed = None\<rparr>"

section \<open>Facts about the operations\<close>

subsection \<open>Lookups\<close>

lemma find_snoc_new: "List.find P xs = None \<Longrightarrow> P x \<Longrightarrow> List.find P (xs @ [x]) = Some x"
  by (induction xs) (auto split: if_splits)

lemma find_snoc_other: "\<not> P x \<Longrightarrow> List.find P (xs @ [x]) = List.find P xs"
  by (induction xs) auto

lemma find_key_distinct:
  "distinct (map f xs) \<Longrightarrow> x \<in> set xs \<Longrightarrow> List.find (\<lambda>y. f y = f x) xs = Some x"
  by (induction xs) (auto simp: rev_image_eqI)

lemma find_selection_None_iff:
  "find_selection d dbs = None \<longleftrightarrow> d \<notin> set (map date (daily_selections dbs))"
  by (auto simp: find_selection_def find_None_iff)

lemma find_selection_insert:
  "find_selection d dbs = None \<Longrightarrow> date row = d \<Longrightarrow>
   find_selection d (dbs\<lparr>daily_selections := daily_selections dbs @ [row]\<rparr>) = Some row"
  by (simp add: find_selection_def find_snoc_new)

lemma find_selection_other:
  "date a \<noteq> d \<Longrightarrow>
   find_selection d (dbs\<lparr>daily_selections := daily_selections dbs @ [a]\<rparr>) = find_selection d dbs"
  by (simp add: find_selection_def find_snoc_other)

subsection \<open>Candidates and the pool\<close>

lemma candidates_find_verse:
  assumes "(i, b, c) \<in> set (candidates dbs)"
  shows "\<exists>v. find_verse i dbs = Some v \<and> v_id v = i"
proof -
  from assms obtain u where "u \<in> set (verses dbs)" "v_id u = i"
    by (auto simp: candidates_def)
  then have "find_verse i dbs \<noteq> None"
    by (auto simp: find_verse_def find_None_iff)
  then obtain v where v: "find_verse i dbs = Some v" by blast
  then have "v_id v = i" by (auto simp: find_verse_def find_Some_iff)
  with v show ?thesis by blast
qed

text \<open>With a primary key, the verse read back at line 63 is the row the candidate came from.\<close>

lemma candidates_find_verse_group:
  assumes "distinct (map v_id (verses dbs))" and "(i, b, c) \<in> set (candidates dbs)"
  shows "\<exists>v. find_verse i dbs = Some v \<and> v_id v = i \<and> book v = b \<and> chapter_no v = c"
proof -
  from assms(2) obtain u where
    u: "u \<in> set (verses dbs)" "v_id u = i" "book u = b" "chapter_no u = c"
    by (auto simp: candidates_def)
  from find_key_distinct [OF assms(1) u(1)] u show ?thesis
    by (simp add: find_verse_def)
qed

lemma candidates_unused: "(i, b, c) \<in> set (candidates dbs) \<Longrightarrow> i \<notin> used_ids dbs"
  by (auto simp: candidates_def)

lemma candidates_fresh:
  "candidates \<lparr>verses = vs, daily_selections = []\<rparr> =
     map (\<lambda>v. (v_id v, book v, chapter_no v)) vs"
  by (simp add: candidates_def used_ids_def)

lemma candidates_after_insert:
  "candidates (dbs\<lparr>daily_selections := daily_selections dbs @ [a]\<rparr>) =
     filter (\<lambda>c. fst c \<noteq> verse_id a) (candidates dbs)"
  by (auto simp: candidates_def used_ids_def filter_map comp_def
           intro!: arg_cong [where f="map _"] filter_cong)

lemma distinct_candidates:
  "distinct (map v_id (verses dbs)) \<Longrightarrow> distinct (map fst (candidates dbs))"
  by (simp add: candidates_def comp_def distinct_map_filter)

lemma length_filter_remove1:
  "distinct (map f xs) \<Longrightarrow> k \<in> f ` set xs \<Longrightarrow>
   Suc (length (filter (\<lambda>x. f x \<noteq> k) xs)) = length xs"
  by (induction xs)
     (auto simp: rev_image_eqI intro!: filter_True [THEN arg_cong [where f=length]])

lemma pool_subset: "set (pool dbs) \<subseteq> set (candidates dbs)"
  by (auto simp: pool_def filtered_def)

lemma pool_nonempty: "candidates dbs \<noteq> [] \<Longrightarrow> pool dbs \<noteq> []"
  by (simp add: pool_def)

subsection \<open>The latest selection\<close>

lemma last_selection_max:
  assumes "ls \<in> set (daily_selections dbs)"
    and "\<forall>s \<in> set (daily_selections dbs). date s \<le> date ls"
    and "distinct (map date (daily_selections dbs))"
  shows "last_selection dbs = Some ls"
proof -
  let ?xs = "sort_key (\<lambda>s. - date s) (daily_selections dbs)"
  have st: "set ?xs = set (daily_selections dbs)" by simp
  with assms(1) have "?xs \<noteq> []" by (metis empty_iff empty_set)
  then obtain h t where ht: "?xs = h # t" by (cases ?xs) auto
  have "sorted (map (\<lambda>s. - date s) ?xs)" by (rule sorted_sort_key)
  with ht have "\<forall>s \<in> set t. date s \<le> date h" by simp
  with ht st have top: "\<forall>s \<in> set (daily_selections dbs). date s \<le> date h"
    by (metis order_refl set_ConsD)
  from ht st have hin: "h \<in> set (daily_selections dbs)" by (metis list.set_intros(1))
  from top assms(1) hin assms(2) have "date h = date ls" by force
  moreover from assms(3) have "inj_on date (set (daily_selections dbs))"
    by (simp add: distinct_map)
  ultimately have "h = ls" using hin assms(1) by (auto dest: inj_onD)
  with ht show ?thesis by (simp add: last_selection_def)
qed

lemma last_chapter_max:
  assumes "ls \<in> set (daily_selections dbs)"
    and "\<forall>s \<in> set (daily_selections dbs). date s \<le> date ls"
    and "distinct (map date (daily_selections dbs))"
  shows "last_chapter dbs =
           map_option (\<lambda>v. (book v, chapter_no v)) (find_verse (verse_id ls) dbs)"
  by (simp add: last_chapter_def last_selection_max [OF assms] split: option.splits)

subsection \<open>One call\<close>

lemma choice_ok:
  assumes "rng_ok rb" and "seq \<noteq> []"
  shows "\<exists>x g'. choice rb seq g = (Inr x, g') \<and> x \<in> set seq"
proof -
  obtain i g' where r: "rb (length seq) g = (i, g')" by (cases "rb (length seq) g")
  from assms have "fst (rb (length seq) g) < length seq" by (simp add: rng_ok_def)
  with r have "i < length seq" by simp
  with r assms(2) show ?thesis by (simp add: choice_def)
qed

lemma choice_Inr_mem: "choice rb seq g = (Inr x, g') \<Longrightarrow> x \<in> set seq"
proof -
  assume c: "choice rb seq g = (Inr x, g')"
  obtain i h where r: "rb (length seq) g = (i, h)" by (cases "rb (length seq) g")
  with c have "i < length seq" and "x = seq ! i"
    by (auto simp: choice_def split: if_splits)
  then show ?thesis by simp
qed

lemma pick_new_verse_db: "pick_new_verse rb sel = (r, sel') \<Longrightarrow> db sel' = db sel"
  by (auto simp: pick_new_verse_def split: if_splits prod.splits sum.splits option.splits)

lemma pick_new_verse_Exhausted:
  "fst (pick_new_verse rb sel) = Inl Exhausted \<longleftrightarrow> candidates (db sel) = []"
  by (auto simp: pick_new_verse_def choice_def Let_def
           split: prod.splits sum.splits option.splits if_splits)

lemma pick_new_verse_Exhausted_state:
  "candidates (db sel) = [] \<Longrightarrow> pick_new_verse rb sel = (Inl Exhausted, sel)"
  by (simp add: pick_new_verse_def)

lemma pick_new_verse_ok:
  assumes "rng_ok rb" and "candidates (db sel) \<noteq> []"
  shows "\<exists>i b c v g'. (i, b, c) \<in> set (pool (db sel)) \<and> find_verse i (db sel) = Some v
           \<and> v_id v = i \<and> pick_new_verse rb sel = (Inr v, sel\<lparr>random := g'\<rparr>)"
proof -
  from choice_ok [OF assms(1) pool_nonempty [OF assms(2)]]
  obtain x g' where c: "choice rb (pool (db sel)) (random sel) = (Inr x, g')"
    and x: "x \<in> set (pool (db sel))" by blast
  obtain i b c where xe: "x = (i, b, c)" by (cases x)
  with x pool_subset have "(i, b, c) \<in> set (candidates (db sel))" by blast
  from candidates_find_verse [OF this]
  obtain v where "find_verse i (db sel) = Some v" "v_id v = i" by blast
  with c x xe assms(2) show ?thesis by (auto simp: pick_new_verse_def)
qed

text \<open>
  On a date without a row the commit cannot hit the unique constraint: the call is the
  pick followed by the new row.
\<close>

lemma get_for_date_new:
  assumes "find_selection d (db sel) = None"
  shows "get_for_date rb now d sel =
     (case pick_new_verse rb sel of
        (Inl e, sel') \<Rightarrow> (Inl e, sel')
      | (Inr v, sel') \<Rightarrow>
          (let row = \<lparr>ds_id = next_id (daily_selections (db sel)), date = d,
                      verse_id = v_id v, created_at = now\<rparr>
           in (Inr row,
               sel'\<lparr>db := db sel\<lparr>daily_selections := daily_selections (db sel) @ [row]\<rparr>\<rparr>)))"
proof (cases "pick_new_verse rb sel")
  case (Pair r s1)
  then have d: "db s1 = db sel" by (rule pick_new_verse_db)
  from assms have "d \<notin> set (map date (daily_selections (db sel)))"
    by (simp add: find_selection_None_iff)
  with Pair d assms show ?thesis
    by (cases r) (simp_all add: get_for_date_def insert_selection_def Let_def)
qed

lemma get_for_date_ok:
  assumes "rng_ok rb" and "find_selection d (db sel) = None" and "candidates (db sel) \<noteq> []"
  shows "\<exists>i b c v a sel'. (i, b, c) \<in> set (pool (db sel)) \<and> find_verse i (db sel) = Some v
           \<and> get_for_date rb now d sel = (Inr a, sel') \<and> date a = d \<and> verse_id a = i
           \<and> db sel' = db sel\<lparr>daily_selections := daily_selections (db sel) @ [a]\<rparr>"
proof -
  from pick_new_verse_ok [OF assms(1,3)] obtain i b c v g' where
    "(i, b, c) \<in> set (pool (db sel))" "find_verse i (db sel) = Some v" "v_id v = i"
    "pick_new_verse rb sel = (Inr v, sel\<lparr>random := g'\<rparr>)" by blast
  then show ?thesis
    by (auto simp: get_for_date_new [OF assms(2)] Let_def)
qed

lemma get_for_date_from_pool:
  assumes "find_selection d (db sel) = None" and "get_for_date rb now d sel = (Inr a, sel')"
  shows "\<exists>b c. (verse_id a, b, c) \<in> set (pool (db sel))"
proof -
  from assms obtain v s1 where
    p: "pick_new_verse rb sel = (Inr v, s1)" and a: "verse_id a = v_id v"
    by (auto simp: get_for_date_new Let_def split: prod.splits sum.splits)
  from p obtain i b c g' where
    c: "choice rb (pool (db sel)) (random sel) = (Inr (i, b, c), g')" and
    f: "find_verse i (db sel) = Some v"
    by (auto simp: pick_new_verse_def split: if_splits prod.splits sum.splits option.splits)
  from c have "(i, b, c) \<in> set (pool (db sel))"
    by (rule choice_Inr_mem)
  moreover from f have "v_id v = i" by (auto simp: find_verse_def find_Some_iff)
  ultimately show ?thesis using a by auto
qed

lemma rng_ok_sample: "rng_ok sample_randbelow"
  by (simp add: rng_ok_def sample_randbelow_def)

text \<open>The definitions to unfold when a call is evaluated on the sample data.\<close>

lemmas selector_defs =
  get_for_date_def find_selection_def pick_new_verse_def candidates_def used_ids_def
  pool_def filtered_def last_chapter_def last_selection_def find_verse_def choice_def
  insert_selection_def next_id_def Let_def

lemmas sample_defs =
  sample_randbelow_def sample_seed_def sample_verses_def sample_db_def sample_history_def
  sample_db_used_def sample_db_forced_def sample_requests_def sample_db_single_def
  rival_row_def rival_commit_def default_settings_def sample_selector_def

section \<open>Reading a date that already has a selection\<close>

text \<open>
  Claim C7. A call for a date that already has a row returns that row and changes nothing:
  the tables after the call are the tables before it, and so is the state of the
  selector's random source, from which no number was drawn.
\<close>

theorem existing_date_pure_read:
  assumes "find_selection d (db sel) = Some e"
  shows "get_for_date rb now d sel = (Inr e, sel)
    \<and> db (snd (get_for_date rb now d sel)) = db sel
    \<and> random (snd (get_for_date rb now d sel)) = random sel"
  using assms by (simp add: get_for_date_def)

theorem existing_date_pure_read_witness:
  "find_selection 20 (db \<lparr>db = sample_db_used, random = (7::nat)\<rparr>)
     = Some \<lparr>ds_id = 2, date = 20, verse_id = 4, created_at = 101\<rparr>
   \<and> get_for_date sample_randbelow 500 20 \<lparr>db = sample_db_used, random = 7\<rparr>
     = (Inr \<lparr>ds_id = 2, date = 20, verse_id = 4, created_at = 101\<rparr>,
        \<lparr>db = sample_db_used, random = 7\<rparr>)"
proof -
  have h: "find_selection 20 (db \<lparr>db = sample_db_used, random = (7::nat)\<rparr>)
     = Some \<lparr>ds_id = 2, date = 20, verse_id = 4, created_at = 101\<rparr>"
    by (simp add: find_selection_def sample_db_used_def sample_history_def)
  from existing_date_pure_read [OF h, of sample_randbelow 500] h show ?thesis by simp
qed

text \<open>
  Claim C2. When a call for date \<open>d\<close> returns a selection, that selection is the stored row
  for \<open>d\<close>, and a second call for \<open>d\<close> (whatever the clock says by then) finds it and
  returns it unchanged, leaving the selector as it was: both calls name the same verse.
\<close>

theorem get_for_date_idempotent:
  assumes "get_for_date rb now d sel = (Inr a, sel')"
  shows "find_selection d (db sel') = Some a \<and> get_for_date rb now' d sel' = (Inr a, sel')"
proof -
  have "find_selection d (db sel') = Some a"
  proof (cases "find_selection d (db sel)")
    case (Some e)
    with assms show ?thesis by (simp add: get_for_date_def)
  next
    case None
    with assms have "date a = d"
      and "db sel' = db sel\<lparr>daily_selections := daily_selections (db sel) @ [a]\<rparr>"
      by (auto simp: get_for_date_new Let_def split: prod.splits sum.splits)
    with None show ?thesis by (simp add: find_selection_insert)
  qed
  then show ?thesis by (simp add: get_for_date_def)
qed

theorem get_for_date_idempotent_witness:
  "fst (get_for_date sample_randbelow 500 5 \<lparr>db = sample_db_used, random = 2\<rparr>)
     = Inr \<lparr>ds_id = 4, date = 5, verse_id = 2, created_at = 500\<rparr>
   \<and> get_for_date sample_randbelow 777 5
        (snd (get_for_date sample_randbelow 500 5 \<lparr>db = sample_db_used, random = 2\<rparr>))
     = (Inr \<lparr>ds_id = 4, date = 5, verse_id = 2, created_at = 500\<rparr>,
        snd (get_for_date sample_randbelow 500 5 \<lparr>db = sample_db_used, random = 2\<rparr>))"
proof -
  let ?r = "get_for_date sample_randbelow 500 5 \<lparr>db = sample_db_used, random = 2\<rparr>"
  have f: "fst ?r = Inr \<lparr>ds_id = 4, date = 5, verse_id = 2, created_at = 500\<rparr>"
    by (simp add: selector_defs sample_defs)
  then have h: "?r = (Inr \<lparr>ds_id = 4, date = 5, verse_id = 2, created_at = 500\<rparr>, snd ?r)"
    by (simp add: prod_eq_iff)
  from get_for_date_idempotent [OF h, of 777] f show ?thesis by simp
qed

section \<open>Exhaustion\<close>

text \<open>
  Claim C3. On a date without a row, the call fails with \<open>Exhausted\<close> exactly when no
  candidate is left, that is when every verse's id is referenced by some stored selection;
  and when it fails so, the selector is as before the call: no row was created.
\<close>

theorem exhausted_iff_no_candidates:
  assumes "find_selection d (db sel) = None"
  shows "(fst (get_for_date rb now d sel) = Inl Exhausted \<longleftrightarrow> candidates (db sel) = [])
    \<and> (candidates (db sel) = [] \<longleftrightarrow>
         v_id ` set (verses (db sel)) \<subseteq> verse_id ` set (daily_selections (db sel)))
    \<and> (fst (get_for_date rb now d sel) = Inl Exhausted \<longrightarrow>
         snd (get_for_date rb now d sel) = sel)"
proof -
  have 1: "fst (get_for_date rb now d sel) = Inl Exhausted \<longleftrightarrow> candidates (db sel) = []"
    using pick_new_verse_Exhausted [of rb sel]
    by (auto simp: get_for_date_new [OF assms] Let_def split: prod.splits sum.splits)
  have 2: "candidates (db sel) = [] \<longleftrightarrow>
      v_id ` set (verses (db sel)) \<subseteq> verse_id ` set (daily_selections (db sel))"
    by (auto simp: candidates_def used_ids_def filter_empty_conv)
  have 3: "candidates (db sel) = [] \<Longrightarrow> snd (get_for_date rb now d sel) = sel"
    by (simp add: get_for_date_new [OF assms] pick_new_verse_Exhausted_state)
  from 1 2 3 show ?thesis by blast
qed

theorem exhausted_iff_no_candidates_witness:
  "find_selection 2 (db \<lparr>db = sample_db_single, random = (0::nat)\<rparr>) = None
   \<and> candidates (db \<lparr>db = sample_db_single, random = (0::nat)\<rparr>) = []
   \<and> get_for_date sample_randbelow 200 2 \<lparr>db = sample_db_single, random = 0\<rparr>
       = (Inl Exhausted, \<lparr>db = sample_db_single, random = 0\<rparr>)"
proof -
  let ?s = "\<lparr>db = sample_db_single, random = (0::nat)\<rparr>"
  have h: "find_selection 2 (db ?s) = None"
    by (simp add: find_selection_def sample_db_single_def)
  have c: "candidates (db ?s) = []"
    by (simp add: candidates_def used_ids_def sample_db_single_def)
  from exhausted_iff_no_candidates [OF h, of sample_randbelow 200] c
  have "fst (get_for_date sample_randbelow 200 2 ?s) = Inl Exhausted"
    and "snd (get_for_date sample_randbelow 200 2 ?s) = ?s"
    by blast+
  then have "get_for_date sample_randbelow 200 2 ?s = (Inl Exhausted, ?s)"
    by (simp add: prod_eq_iff)
  with h c show ?thesis by simp
qed

section \<open>No repeat until exhaustion\<close>

text \<open>
  Any run of calls on distinct dates without rows, no longer than the list of candidates,
  succeeds throughout: the new rows are appended in call order, name distinct verses that
  were unused before, and each takes one candidate away.
\<close>

lemma get_for_dates_ok:
  assumes "rng_ok rb"
  shows "distinct (map v_id (verses (db sel))) \<Longrightarrow> distinct (map snd reqs) \<Longrightarrow>
    \<forall>d \<in> set (map snd reqs). find_selection d (db sel) = None \<Longrightarrow>
    length reqs \<le> length (candidates (db sel)) \<Longrightarrow>
    \<exists>as sel'. get_for_dates rb reqs sel = (Inr as, sel')
      \<and> db sel' = db sel\<lparr>daily_selections := daily_selections (db sel) @ as\<rparr>
      \<and> map date as = map snd reqs
      \<and> distinct (map verse_id as)
      \<and> set (map verse_id as) \<subseteq> fst ` set (candidates (db sel))
      \<and> length (candidates (db sel')) + length reqs = length (candidates (db sel))"
proof (induction reqs arbitrary: sel)
  case Nil
  then show ?case by simp
next
  case (Cons r reqs)
  obtain now d where r: "r = (now, d)" by (cases r)
  let ?dbs = "db sel"
  from Cons.prems r have un: "find_selection d ?dbs = None" by simp
  from Cons.prems have ne: "candidates ?dbs \<noteq> []" by auto
  from get_for_date_ok [OF assms un ne, of now] obtain i b c a s1 where
    ip: "(i, b, c) \<in> set (pool ?dbs)" and
    g: "get_for_date rb now d sel = (Inr a, s1)" and
    a: "date a = d" "verse_id a = i" and
    d1: "db s1 = ?dbs\<lparr>daily_selections := daily_selections ?dbs @ [a]\<rparr>"
    by blast
  from ip pool_subset have ic: "(i, b, c) \<in> set (candidates ?dbs)" by blast
  have c1: "candidates (db s1) = filter (\<lambda>c. fst c \<noteq> i) (candidates ?dbs)"
    by (simp add: d1 candidates_after_insert a)
  from ic have "i \<in> fst ` set (candidates ?dbs)" by force
  from length_filter_remove1 [OF distinct_candidates [OF Cons.prems(1)] this]
  have l1: "Suc (length (candidates (db s1))) = length (candidates ?dbs)"
    by (simp add: c1)
  have p1: "distinct (map v_id (verses (db s1)))" using Cons.prems(1) by (simp add: d1)
  have p2: "distinct (map snd reqs)" using Cons.prems(2) by simp
  have p3: "\<forall>d' \<in> set (map snd reqs). find_selection d' (db s1) = None"
  proof
    fix d' assume d': "d' \<in> set (map snd reqs)"
    with Cons.prems(2) r have "d \<noteq> d'" by auto
    moreover from d' Cons.prems(3) have "find_selection d' ?dbs = None" by auto
    ultimately show "find_selection d' (db s1) = None"
      using a by (simp add: d1 find_selection_other)
  qed
  have p4: "length reqs \<le> length (candidates (db s1))" using Cons.prems(4) l1 by simp
  from Cons.IH [OF p1 p2 p3 p4] obtain as s2 where
    r2: "get_for_dates rb reqs s1 = (Inr as, s2)" and
    d2: "db s2 = db s1\<lparr>daily_selections := daily_selections (db s1) @ as\<rparr>" and
    m2: "map date as = map snd reqs" and
    v2: "distinct (map verse_id as)" and
    s2: "set (map verse_id as) \<subseteq> fst ` set (candidates (db s1))" and
    l2: "length (candidates (db s2)) + length reqs = length (candidates (db s1))"
    by blast
  have "get_for_dates rb (r # reqs) sel = (Inr (a # as), s2)"
    by (simp add: r g r2)
  moreover have "db s2 = ?dbs\<lparr>daily_selections := daily_selections ?dbs @ (a # as)\<rparr>"
    by (simp add: d2 d1)
  moreover have "map date (a # as) = map snd (r # reqs)"
    by (simp add: m2 a r)
  moreover have "distinct (map verse_id (a # as))"
    using v2 s2 a by (auto simp: c1)
  moreover have "set (map verse_id (a # as)) \<subseteq> fst ` set (candidates ?dbs)"
    using s2 a ic by (force simp: c1)
  moreover have "length (candidates (db s2)) + length (r # reqs) = length (candidates ?dbs)"
    using l1 l2 by simp
  ultimately show ?case by blast
qed

text \<open>
  Claim C1. Take a catalog of \<open>N\<close> verses with distinct ids and no selection yet, and \<open>N\<close>
  distinct dates. The \<open>N\<close> calls all succeed; their selections name \<open>N\<close> distinct verses,
  together the whole catalog, so no verse is named twice before every verse has been
  used; and a further call, on any other date, fails with \<open>Exhausted\<close> and changes
  nothing.
\<close>

theorem no_repeat_until_exhaustion:
  assumes "rng_ok rb"
    and "distinct (map v_id vs)"
    and "distinct (map snd reqs)"
    and "length reqs = length vs"
  shows "\<exists>as sel'.
      get_for_dates rb reqs \<lparr>db = \<lparr>verses = vs, daily_selections = []\<rparr>, random = g\<rparr>
        = (Inr as, sel')
      \<and> length as = length vs
      \<and> map date as = map snd reqs
      \<and> distinct (map verse_id as)
      \<and> set (map verse_id as) = set (map v_id vs)
      \<and> daily_selections (db sel') = as
      \<and> (\<forall>now d. d \<notin> set (map snd reqs) \<longrightarrow>
            get_for_date rb now d sel' = (Inl Exhausted, sel'))"
proof -
  let ?sel = "\<lparr>db = \<lparr>verses = vs, daily_selections = []\<rparr>, random = g\<rparr>"
  have "distinct (map v_id (verses (db ?sel)))" using assms(2) by simp
  moreover have "\<forall>d \<in> set (map snd reqs). find_selection d (db ?sel) = None"
    by (simp add: find_selection_def)
  moreover have "length reqs \<le> length (candidates (db ?sel))"
    using assms(4) by (simp add: candidates_fresh)
  ultimately obtain as sel' where
    r: "get_for_dates rb reqs ?sel = (Inr as, sel')" and
    d: "db sel' = db ?sel\<lparr>daily_selections := daily_selections (db ?sel) @ as\<rparr>" and
    m: "map date as = map snd reqs" and
    v: "distinct (map verse_id as)" and
    s: "set (map verse_id as) \<subseteq> fst ` set (candidates (db ?sel))" and
    l: "length (candidates (db sel')) + length reqs = length (candidates (db ?sel))"
    using get_for_dates_ok [OF assms(1), of ?sel reqs] assms(3) by blast
  from m have la: "length as = length reqs" by (metis length_map)
  have sub: "set (map verse_id as) \<subseteq> set (map v_id vs)"
    using s by (auto simp: candidates_fresh)
  have "card (set (map verse_id as)) = length (map verse_id as)"
    using v by (rule distinct_card)
  moreover have "card (set (map v_id vs)) = length (map v_id vs)"
    using assms(2) by (rule distinct_card)
  ultimately have "card (set (map verse_id as)) = card (set (map v_id vs))"
    using la assms(4) by (simp only: length_map)
  with sub have eq: "set (map verse_id as) = set (map v_id vs)"
    by (intro card_subset_eq) simp_all
  from l assms(4) have ex: "candidates (db sel') = []" by (simp add: candidates_fresh)
  have "\<forall>now d. d \<notin> set (map snd reqs) \<longrightarrow> get_for_date rb now d sel' = (Inl Exhausted, sel')"
  proof (intro allI impI)
    fix now d assume "d \<notin> set (map snd reqs)"
    with m d have "find_selection d (db sel') = None"
      by (simp add: find_selection_None_iff)
    then show "get_for_date rb now d sel' = (Inl Exhausted, sel')"
      by (simp add: get_for_date_new pick_new_verse_Exhausted_state [OF ex])
  qed
  with r la assms(4) m v eq d show ?thesis by simp
qed

theorem no_repeat_until_exhaustion_witness:
  "rng_ok sample_randbelow
   \<and> distinct (map v_id sample_verses)
   \<and> distinct (map snd sample_requests)
   \<and> length sample_requests = length sample_verses
   \<and> (\<exists>as sel'.
        get_for_dates sample_randbelow sample_requests \<lparr>db = sample_db, random = 11\<rparr>
          = (Inr as, sel')
        \<and> length as = 5
        \<and> distinct (map verse_id as)
        \<and> set (map verse_id as) = {1, 2, 3, 4, 5}
        \<and> get_for_date sample_randbelow 105 15 sel' = (Inl Exhausted, sel'))"
proof -
  have h2: "distinct (map v_id sample_verses)" by (simp add: sample_verses_def)
  have h3: "distinct (map snd sample_requests)" by (simp add: sample_requests_def)
  have h4: "length sample_requests = length sample_verses"
    by (simp add: sample_requests_def sample_verses_def)
  have n: "15 \<notin> set (map snd sample_requests)" by (simp add: sample_requests_def)
  have vs: "set (map v_id sample_verses) = {1, 2, 3, 4, 5}"
    by (auto simp: sample_verses_def)
  have l: "length sample_verses = 5" by (simp add: sample_verses_def)
  from no_repeat_until_exhaustion [OF rng_ok_sample h2 h3 h4, of 11] n
  have "\<exists>as sel'.
        get_for_dates sample_randbelow sample_requests \<lparr>db = sample_db, random = 11\<rparr>
          = (Inr as, sel')
        \<and> length as = length sample_verses
        \<and> distinct (map verse_id as)
        \<and> set (map verse_id as) = set (map v_id sample_verses)
        \<and> get_for_date sample_randbelow 105 15 sel' = (Inl Exhausted, sel')"
    unfolding sample_db_def by blast
  with rng_ok_sample h2 h3 h4 show ?thesis by (simp only: vs l)
qed

section \<open>The group of the latest-dated selection\<close>

text \<open>
  Claim C6. Let \<open>ls\<close> be the stored selection with the greatest date (dates are unique)
  and \<open>G\<close> the \<open>(book, chapter)\<close> of the verse that \<open>ls\<close> references (none when that verse
  is gone). Then \<open>G\<close> is the group of line 50, the list of line 60 is the candidates
  outside \<open>G\<close>, and the target date plays no part: for every date without a row, earlier
  than the stored ones or not, the verse of a new selection is one of the candidates
  outside \<open>G\<close> when there are any, and one of the candidates otherwise.
\<close>

theorem last_group_is_latest_dated:
  assumes "ls \<in> set (daily_selections (db sel))"
    and "\<forall>s \<in> set (daily_selections (db sel)). date s \<le> date ls"
    and "distinct (map date (daily_selections (db sel)))"
  shows "last_chapter (db sel) =
           map_option (\<lambda>v. (book v, chapter_no v)) (find_verse (verse_id ls) (db sel))
    \<and> filtered (db sel) =
          filter (\<lambda>(i, b, c). Some (b, c) \<noteq>
                   map_option (\<lambda>v. (book v, chapter_no v)) (find_verse (verse_id ls) (db sel)))
            (candidates (db sel))
    \<and> (\<forall>d now a sel'. find_selection d (db sel) = None \<and>
            get_for_date rb now d sel = (Inr a, sel') \<longrightarrow>
            (\<exists>b c. (verse_id a, b, c) \<in> set
               (if filter (\<lambda>(i, b, c). Some (b, c) \<noteq>
                      map_option (\<lambda>v. (book v, chapter_no v))
                        (find_verse (verse_id ls) (db sel)))
                     (candidates (db sel)) \<noteq> []
                then filter (\<lambda>(i, b, c). Some (b, c) \<noteq>
                      map_option (\<lambda>v. (book v, chapter_no v))
                        (find_verse (verse_id ls) (db sel)))
                     (candidates (db sel))
                else candidates (db sel))))"
proof -
  let ?G = "map_option (\<lambda>v. (book v, chapter_no v)) (find_verse (verse_id ls) (db sel))"
  let ?F = "filter (\<lambda>(i, b, c). Some (b, c) \<noteq> ?G) (candidates (db sel))"
  have lc: "last_chapter (db sel) = ?G" by (rule last_chapter_max [OF assms])
  have fl: "filtered (db sel) = ?F" by (simp only: filtered_def lc)
  have pl: "pool (db sel) = (if ?F \<noteq> [] then ?F else candidates (db sel))"
    by (simp only: pool_def fl)
  have "\<forall>d now a sel'. find_selection d (db sel) = None \<and>
            get_for_date rb now d sel = (Inr a, sel') \<longrightarrow>
            (\<exists>b c. (verse_id a, b, c) \<in> set (pool (db sel)))"
    using get_for_date_from_pool [of _ sel rb] by blast
  from this [unfolded pl] lc fl show ?thesis by blast
qed

text \<open>
  On the sample history the target is day 5. The selection of day 4 is in Genesis 2, the
  latest-dated one (day 20) in Exodus 1. The draw below 2 is 1, which among all the
  candidates would be Exodus 1:2; the call selects Genesis 1:2, the one candidate outside
  Exodus 1.
\<close>

theorem last_group_is_latest_dated_witness:
  "map date (daily_selections (db sample_selector)) = [4, 20, 10]
   \<and> find_verse 4 (db sample_selector) = Some (sample_verses ! 3)
   \<and> (book (sample_verses ! 3), chapter_no (sample_verses ! 3)) = (''Exodus'', 1)
   \<and> candidates (db sample_selector) = [(2, ''Genesis'', 1), (5, ''Exodus'', 1)]
   \<and> fst (sample_randbelow 2 (random sample_selector)) = 1
   \<and> find_selection 5 (db sample_selector) = None
   \<and> fst (get_for_date sample_randbelow 500 5 sample_selector)
        = Inr \<lparr>ds_id = 4, date = 5, verse_id = 2, created_at = 500\<rparr>
   \<and> last_chapter (db sample_selector) = Some (''Exodus'', 1)
   \<and> filtered (db sample_selector) = [(2, ''Genesis'', 1)]
   \<and> (\<exists>b c. (2, b, c) \<in> set
         (if filter (\<lambda>(i, b, c). Some (b, c) \<noteq> Some (''Exodus'', 1))
               (candidates (db sample_selector)) \<noteq> []
          then filter (\<lambda>(i, b, c). Some (b, c) \<noteq> Some (''Exodus'', 1))
               (candidates (db sample_selector))
          else candidates (db sample_selector)))"
proof -
  let ?s = "sample_selector"
  let ?ls = "\<lparr>ds_id = 2, date = 20, verse_id = 4, created_at = 101\<rparr>"
  let ?a = "\<lparr>ds_id = 4, date = 5, verse_id = 2, created_at = 500\<rparr>"
  have h1: "?ls \<in> set (daily_selections (db ?s))"
    by (simp add: sample_selector_def sample_db_used_def sample_history_def)
  have h2: "\<forall>s \<in> set (daily_selections (db ?s)). date s \<le> date ?ls"
    by (simp add: sample_selector_def sample_db_used_def sample_history_def)
  have h3: "distinct (map date (daily_selections (db ?s)))"
    by (simp add: sample_selector_def sample_db_used_def sample_history_def)
  have m: "map date (daily_selections (db ?s)) = [4, 20, 10]"
    by (simp add: sample_selector_def sample_db_used_def sample_history_def)
  have fv: "find_verse 4 (db ?s) = Some (sample_verses ! 3)"
    by (simp add: find_verse_def sample_selector_def sample_db_used_def sample_verses_def)
  have e: "(book (sample_verses ! 3), chapter_no (sample_verses ! 3)) = (''Exodus'', 1)"
    by (simp add: sample_verses_def)
  have gr: "map_option (\<lambda>v. (book v, chapter_no v)) (find_verse (verse_id ?ls) (db ?s))
      = Some (''Exodus'', 1)"
    using fv e by simp
  have c: "candidates (db ?s) = [(2, ''Genesis'', 1), (5, ''Exodus'', 1)]"
    by (simp add: candidates_def used_ids_def sample_selector_def sample_db_used_def
        sample_verses_def sample_history_def)
  have r: "fst (sample_randbelow 2 (random ?s)) = 1"
    by (simp add: sample_randbelow_def sample_selector_def)
  have u: "find_selection 5 (db ?s) = None"
    by (simp add: find_selection_def sample_selector_def sample_db_used_def
        sample_history_def)
  have f: "fst (get_for_date sample_randbelow 500 5 ?s) = Inr ?a"
    by (simp add: selector_defs sample_defs)
  then have g: "get_for_date sample_randbelow 500 5 ?s
      = (Inr ?a, snd (get_for_date sample_randbelow 500 5 ?s))"
    by (simp add: prod_eq_iff)
  note t = last_group_is_latest_dated [OF h1 h2 h3, of sample_randbelow, unfolded gr]
  from t have lc: "last_chapter (db ?s) = Some (''Exodus'', 1)" by blast
  from t have "filtered (db ?s) =
      filter (\<lambda>(i, b, c). Some (b, c) \<noteq> Some (''Exodus'', 1)) (candidates (db ?s))"
    by blast
  then have fl: "filtered (db ?s) = [(2, ''Genesis'', 1)]" by (simp add: c)
  from t u g have pk: "\<exists>b c. (verse_id ?a, b, c) \<in> set
         (if filter (\<lambda>(i, b, c). Some (b, c) \<noteq> Some (''Exodus'', 1))
               (candidates (db ?s)) \<noteq> []
          then filter (\<lambda>(i, b, c). Some (b, c) \<noteq> Some (''Exodus'', 1))
               (candidates (db ?s))
          else candidates (db ?s))"
    by blast
  have "verse_id ?a = 2" by simp
  with pk m fv e c r u f lc fl show ?thesis by (simp only: simp_thms)
qed

section \<open>Preferring another group\<close>

text \<open>
  Claim C4. Let \<open>ls\<close> be the selection with the greatest date and \<open>lv\<close> the verse it
  references. On a date without a row, if some unused verse \<open>u\<close> lies outside the
  \<open>(book, chapter)\<close> of \<open>lv\<close>, the call succeeds, the new row is stored for the date, and
  the verse it names lies outside that group too.
\<close>

theorem group_diversity_preference:
  assumes "rng_ok rb"
    and "distinct (map v_id (verses (db sel)))"
    and "find_selection d (db sel) = None"
    and "ls \<in> set (daily_selections (db sel))"
    and "\<forall>s \<in> set (daily_selections (db sel)). date s \<le> date ls"
    and "distinct (map date (daily_selections (db sel)))"
    and "find_verse (verse_id ls) (db sel) = Some lv"
    and "u \<in> set (verses (db sel))"
    and "v_id u \<notin> verse_id ` set (daily_selections (db sel))"
    and "(book u, chapter_no u) \<noteq> (book lv, chapter_no lv)"
  shows "\<exists>a sel' v. get_for_date rb now d sel = (Inr a, sel')
      \<and> find_selection d (db sel') = Some a
      \<and> find_verse (verse_id a) (db sel') = Some v
      \<and> (book v, chapter_no v) \<noteq> (book lv, chapter_no lv)"
proof -
  have lc: "last_chapter (db sel) = Some (book lv, chapter_no lv)"
    by (simp add: last_chapter_max [OF assms(4-6)] assms(7))
  from assms(8,9) have uc: "(v_id u, book u, chapter_no u) \<in> set (candidates (db sel))"
    by (auto simp: candidates_def used_ids_def)
  with assms(10) lc have "(v_id u, book u, chapter_no u) \<in> set (filtered (db sel))"
    by (auto simp: filtered_def)
  then have pf: "pool (db sel) = filtered (db sel)" by (auto simp: pool_def)
  from uc have ne: "candidates (db sel) \<noteq> []" by auto
  from get_for_date_ok [OF assms(1,3) ne, of now] obtain i b c v a sel' where
    ip: "(i, b, c) \<in> set (pool (db sel))" and
    g: "get_for_date rb now d sel = (Inr a, sel')" and
    a: "date a = d" "verse_id a = i" and
    d1: "db sel' = db sel\<lparr>daily_selections := daily_selections (db sel) @ [a]\<rparr>"
    by blast
  from ip pf lc have grp: "(b, c) \<noteq> (book lv, chapter_no lv)"
    by (auto simp: filtered_def)
  from ip pool_subset have "(i, b, c) \<in> set (candidates (db sel))" by blast
  from candidates_find_verse_group [OF assms(2) this] obtain v' where
    v': "find_verse i (db sel) = Some v'" "book v' = b" "chapter_no v' = c" by blast
  have "find_selection d (db sel') = Some a"
    by (simp add: d1 find_selection_insert [OF assms(3) a(1)])
  moreover have "find_verse (verse_id a) (db sel') = Some v'"
    using v' a by (simp add: d1 find_verse_def)
  ultimately show ?thesis using g grp v' by auto
qed

theorem group_diversity_preference_witness:
  "rng_ok sample_randbelow
   \<and> find_selection 5 (db \<lparr>db = sample_db_used, random = (2::nat)\<rparr>) = None
   \<and> last_selection (db \<lparr>db = sample_db_used, random = (2::nat)\<rparr>)
        = Some \<lparr>ds_id = 2, date = 20, verse_id = 4, created_at = 101\<rparr>
   \<and> find_verse 4 (db \<lparr>db = sample_db_used, random = (2::nat)\<rparr>) = Some (sample_verses ! 3)
   \<and> (\<exists>a sel' v.
         get_for_date sample_randbelow 500 5 \<lparr>db = sample_db_used, random = 2\<rparr> = (Inr a, sel')
         \<and> find_selection 5 (db sel') = Some a
         \<and> find_verse (verse_id a) (db sel') = Some v
         \<and> (book v, chapter_no v) \<noteq> (''Exodus'', 1))"
proof -
  let ?s = "\<lparr>db = sample_db_used, random = (2::nat)\<rparr>"
  let ?ls = "\<lparr>ds_id = 2, date = 20, verse_id = 4, created_at = 101\<rparr>"
  have h2: "distinct (map v_id (verses (db ?s)))"
    by (simp add: sample_db_used_def sample_verses_def)
  have h3: "find_selection 5 (db ?s) = None"
    by (simp add: find_selection_def sample_db_used_def sample_history_def)
  have h4: "?ls \<in> set (daily_selections (db ?s))"
    by (simp add: sample_db_used_def sample_history_def)
  have h5: "\<forall>s \<in> set (daily_selections (db ?s)). date s \<le> date ?ls"
    by (simp add: sample_db_used_def sample_history_def)
  have h6: "distinct (map date (daily_selections (db ?s)))"
    by (simp add: sample_db_used_def sample_history_def)
  have h7: "find_verse (verse_id ?ls) (db ?s) = Some (sample_verses ! 3)"
    by (simp add: find_verse_def sample_db_used_def sample_verses_def)
  have h8: "sample_verses ! 1 \<in> set (verses (db ?s))"
    by (simp add: sample_db_used_def sample_verses_def)
  have h9: "v_id (sample_verses ! 1) \<notin> verse_id ` set (daily_selections (db ?s))"
    by (simp add: sample_db_used_def sample_verses_def sample_history_def)
  have h10: "(book (sample_verses ! 1), chapter_no (sample_verses ! 1))
      \<noteq> (book (sample_verses ! 3), chapter_no (sample_verses ! 3))"
    by (simp add: sample_verses_def)
  have l: "last_selection (db ?s) = Some ?ls"
    by (simp add: last_selection_def sample_db_used_def sample_history_def)
  have e: "(book (sample_verses ! 3), chapter_no (sample_verses ! 3)) = (''Exodus'', 1)"
    by (simp add: sample_verses_def)
  from group_diversity_preference [OF rng_ok_sample h2 h3 h4 h5 h6 h7 h8 h9 h10, of 500]
  have "\<exists>a sel' v.
         get_for_date sample_randbelow 500 5 ?s = (Inr a, sel')
         \<and> find_selection 5 (db sel') = Some a
         \<and> find_verse (verse_id a) (db sel') = Some v
         \<and> (book v, chapter_no v) \<noteq> (''Exodus'', 1)"
    by (simp only: e)
  with rng_ok_sample h3 l h7 show ?thesis by simp
qed

text \<open>
  Claim C5. With \<open>ls\<close> and \<open>lv\<close> as before: on a date without a row, if candidates are left
  and every unused verse is in the \<open>(book, chapter)\<close> of \<open>lv\<close>, the call still
  succeeds; the new row is stored for the date and names a verse that was unused and lies
  in that group.
\<close>

theorem diversity_fallback:
  assumes "rng_ok rb"
    and "distinct (map v_id (verses (db sel)))"
    and "find_selection d (db sel) = None"
    and "ls \<in> set (daily_selections (db sel))"
    and "\<forall>s \<in> set (daily_selections (db sel)). date s \<le> date ls"
    and "distinct (map date (daily_selections (db sel)))"
    and "find_verse (verse_id ls) (db sel) = Some lv"
    and "candidates (db sel) \<noteq> []"
    and "\<forall>u \<in> set (verses (db sel)).
           v_id u \<notin> verse_id ` set (daily_selections (db sel)) \<longrightarrow>
           (book u, chapter_no u) = (book lv, chapter_no lv)"
  shows "\<exists>a sel' v. get_for_date rb now d sel = (Inr a, sel')
      \<and> find_selection d (db sel') = Some a
      \<and> verse_id a \<notin> verse_id ` set (daily_selections (db sel))
      \<and> find_verse (verse_id a) (db sel') = Some v
      \<and> (book v, chapter_no v) = (book lv, chapter_no lv)"
proof -
  from get_for_date_ok [OF assms(1,3,8), of now] obtain i b c v a sel' where
    ip: "(i, b, c) \<in> set (pool (db sel))" and
    g: "get_for_date rb now d sel = (Inr a, sel')" and
    a: "date a = d" "verse_id a = i" and
    d1: "db sel' = db sel\<lparr>daily_selections := daily_selections (db sel) @ [a]\<rparr>"
    by blast
  from ip pool_subset have ic: "(i, b, c) \<in> set (candidates (db sel))" by blast
  from candidates_find_verse_group [OF assms(2) ic] obtain v' where
    v': "find_verse i (db sel) = Some v'" "v_id v' = i" "book v' = b" "chapter_no v' = c"
    by blast
  from candidates_unused [OF ic] have un: "i \<notin> verse_id ` set (daily_selections (db sel))"
    by (simp add: used_ids_def)
  from v'(1) have "v' \<in> set (verses (db sel))"
    by (auto simp: find_verse_def find_Some_iff)
  with assms(9) un v'(2) have "(book v', chapter_no v') = (book lv, chapter_no lv)" by blast
  moreover have "find_selection d (db sel') = Some a"
    by (simp add: d1 find_selection_insert [OF assms(3) a(1)])
  moreover have "find_verse (verse_id a) (db sel') = Some v'"
    using v' a by (simp add: d1 find_verse_def)
  ultimately show ?thesis using g un a by auto
qed

theorem diversity_fallback_witness:
  "rng_ok sample_randbelow
   \<and> find_selection 6 (db \<lparr>db = sample_db_forced, random = (9::nat)\<rparr>) = None
   \<and> last_selection (db \<lparr>db = sample_db_forced, random = (9::nat)\<rparr>)
        = Some \<lparr>ds_id = 2, date = 20, verse_id = 4, created_at = 101\<rparr>
   \<and> find_verse 4 (db \<lparr>db = sample_db_forced, random = (9::nat)\<rparr>) = Some (sample_verses ! 3)
   \<and> candidates (db \<lparr>db = sample_db_forced, random = (9::nat)\<rparr>) = [(5, ''Exodus'', 1)]
   \<and> (\<exists>a sel' v.
         get_for_date sample_randbelow 600 6 \<lparr>db = sample_db_forced, random = 9\<rparr> = (Inr a, sel')
         \<and> find_selection 6 (db sel') = Some a
         \<and> find_verse (verse_id a) (db sel') = Some v
         \<and> (book v, chapter_no v) = (''Exodus'', 1))"
proof -
  let ?s = "\<lparr>db = sample_db_forced, random = (9::nat)\<rparr>"
  let ?ls = "\<lparr>ds_id = 2, date = 20, verse_id = 4, created_at = 101\<rparr>"
  have h2: "distinct (map v_id (verses (db ?s)))"
    by (simp add: sample_db_forced_def sample_verses_def)
  have h3: "find_selection 6 (db ?s) = None"
    by (simp add: find_selection_def sample_db_forced_def sample_history_def)
  have h4: "?ls \<in> set (daily_selections (db ?s))"
    by (simp add: sample_db_forced_def sample_history_def)
  have h5: "\<forall>s \<in> set (daily_selections (db ?s)). date s \<le> date ?ls"
    by (simp add: sample_db_forced_def sample_history_def)
  have h6: "distinct (map date (daily_selections (db ?s)))"
    by (simp add: sample_db_forced_def sample_history_def)
  have h7: "find_verse (verse_id ?ls) (db ?s) = Some (sample_verses ! 3)"
    by (simp add: find_verse_def sample_db_forced_def sample_verses_def)
  have c: "candidates (db ?s) = [(5, ''Exodus'', 1)]"
    by (simp add: candidates_def used_ids_def sample_db_forced_def sample_verses_def
        sample_history_def)
  then have h8: "candidates (db ?s) \<noteq> []" by simp
  have h9: "\<forall>u \<in> set (verses (db ?s)).
           v_id u \<notin> verse_id ` set (daily_selections (db ?s)) \<longrightarrow>
           (book u, chapter_no u) = (book (sample_verses ! 3), chapter_no (sample_verses ! 3))"
    by (simp add: sample_db_forced_def sample_verses_def sample_history_def)
  have l: "last_selection (db ?s) = Some ?ls"
    by (simp add: last_selection_def sample_db_forced_def sample_history_def)
  have e: "(book (sample_verses ! 3), chapter_no (sample_verses ! 3)) = (''Exodus'', 1)"
    by (simp add: sample_verses_def)
  from diversity_fallback [OF rng_ok_sample h2 h3 h4 h5 h6 h7 h8 h9, of 600]
  have "\<exists>a sel' v.
         get_for_date sample_randbelow 600 6 ?s = (Inr a, sel')
         \<and> find_selection 6 (db sel') = Some a
         \<and> find_verse (verse_id a) (db sel') = Some v
         \<and> (book v, chapter_no v) = (''Exodus'', 1)"
    by (simp only: e) blast
  with rng_ok_sample h3 l h7 c show ?thesis by simp
qed

section \<open>The seed\<close>

text \<open>
  Claim C10. A selector constructed with seed \<open>0\<close> is the selector constructed with no
  seed: its random source is built from the configured seed alone, and under the default
  settings (no configured seed) from the system's entropy, as if no seed had been given.
  Every run of calls then goes the same way for both.
\<close>

theorem zero_seed_same_as_no_seed:
  "VerseSelector_init seedf entropy settings dbs (Some 0)
     = VerseSelector_init seedf entropy settings dbs None
   \<and> random (VerseSelector_init seedf entropy settings dbs (Some 0))
     = Random seedf entropy (seed settings)
   \<and> random (VerseSelector_init seedf entropy default_settings dbs (Some 0)) = entropy
   \<and> get_for_dates rb reqs (VerseSelector_init seedf entropy settings dbs (Some 0))
     = get_for_dates rb reqs (VerseSelector_init seedf entropy settings dbs None)"
  by (simp add: VerseSelector_init_def seed_or_def Random_def default_settings_def)

text \<open>
  A seed that line 21 keeps (a non-zero argument, or else a configured seed) fixes the
  selector whatever entropy the system would have given, and with it every run of calls.
\<close>

lemma seeded_selector_reproducible:
  assumes "seed_or seed_arg (seed settings) = Some s"
  shows "VerseSelector_init seedf e1 settings dbs seed_arg
           = VerseSelector_init seedf e2 settings dbs seed_arg
    \<and> get_for_dates rb reqs (VerseSelector_init seedf e1 settings dbs seed_arg)
           = get_for_dates rb reqs (VerseSelector_init seedf e2 settings dbs seed_arg)"
  using assms by (simp add: VerseSelector_init_def Random_def)

lemma nonzero_seed_kept: "s \<noteq> 0 \<Longrightarrow> seed_or (Some s) dflt = Some s"
  by (simp add: seed_or_def)

text \<open>
  Claim C8, at seed \<open>0\<close>. Two selectors are constructed with the same seed \<open>0\<close> under the
  default settings, over the same tables; the system hands the first the entropy state
  \<open>0\<close> and the second the state \<open>1\<close>. The same call then selects verse 1 for the first and
  verse 2 for the second: the seed \<open>0\<close> did not make the choice reproducible.
\<close>

theorem zero_seed_not_reproducible:
  "map_sum id verse_id
     (fst (get_for_date sample_randbelow 100 10
             (VerseSelector_init sample_seed 0 default_settings sample_db (Some 0)))) = Inr 1
   \<and> map_sum id verse_id
     (fst (get_for_date sample_randbelow 100 10
             (VerseSelector_init sample_seed 1 default_settings sample_db (Some 0)))) = Inr 2"
  by (simp add: VerseSelector_init_def seed_or_def Random_def selector_defs sample_defs)

section \<open>A concurrent insert for the same date\<close>

text \<open>Without other sessions the raced call is the call.\<close>

lemma get_for_date_raced_alone:
  "get_for_date_raced (\<lambda>dbs. dbs) rb now d sel = get_for_date rb now d sel"
  by (simp add: get_for_date_raced_def get_for_date_def
           split: option.splits prod.splits sum.splits)

text \<open>
  Claim C9, as the code has it. When the date had no row at line 27, a verse was picked,
  and by the commit another session has stored a row for the date, the call ends with the
  \<open>Conflict\<close> of the unique constraint: the error reaches the caller, the stored row is not
  read again and nothing is returned.
\<close>

theorem conflict_propagates:
  assumes "find_selection d (db sel) = None"
    and "pick_new_verse rb sel = (Inr v, sel')"
    and "find_selection d (other (db sel')) = Some e"
  shows "get_for_date_raced other rb now d sel = (Inl Conflict, sel'\<lparr>db := other (db sel')\<rparr>)"
proof -
  from assms(3) have "d \<in> set (map date (daily_selections (other (db sel'))))"
    using find_selection_None_iff [of d "other (db sel')"] by simp
  then have "insert_selection now d (v_id v) (other (db sel')) = Inl Conflict"
    by (simp add: insert_selection_def)
  with assms(1,2) show ?thesis by (simp add: get_for_date_raced_def)
qed

theorem conflict_propagates_witness:
  "find_selection 10 (db \<lparr>db = sample_db, random = (0::nat)\<rparr>) = None
   \<and> pick_new_verse sample_randbelow \<lparr>db = sample_db, random = 0\<rparr>
        = (Inr (sample_verses ! 0), \<lparr>db = sample_db, random = 3\<rparr>)
   \<and> find_selection 10 (rival_commit sample_db) = Some rival_row
   \<and> get_for_date_raced rival_commit sample_randbelow 100 10 \<lparr>db = sample_db, random = 0\<rparr>
        = (Inl Conflict, \<lparr>db = rival_commit sample_db, random = 3\<rparr>)"
proof -
  let ?s = "\<lparr>db = sample_db, random = (0::nat)\<rparr>"
  let ?s' = "\<lparr>db = sample_db, random = (3::nat)\<rparr>"
  have h1: "find_selection 10 (db ?s) = None"
    by (simp add: find_selection_def sample_db_def)
  have h2: "pick_new_verse sample_randbelow ?s = (Inr (sample_verses ! 0), ?s')"
    by (simp add: selector_defs sample_defs)
  have h3: "find_selection 10 (rival_commit (db ?s')) = Some rival_row"
    by (simp add: find_selection_def rival_commit_def rival_row_def sample_db_def)
  from conflict_propagates [where other = rival_commit and now = 100, OF h1 h2 h3] h1 h2 h3
  show ?thesis by simp
qed

text \<open>
  The claim as stated fails on this run: the rival's row for day 10 is in the table when
  the call ends, and the call ends with \<open>Conflict\<close> instead of returning that row.
\<close>

theorem conflict_not_recovered_counterexample:
  "fst (get_for_date_raced rival_commit sample_randbelow 100 10
          \<lparr>db = sample_db, random = 0\<rparr>) = Inl Conflict
   \<and> find_selection 10
        (db (snd (get_for_date_raced rival_commit sample_randbelow 100 10
                    \<lparr>db = sample_db, random = 0\<rparr>))) = Some rival_row"
  by (simp add: get_for_date_raced_def selector_defs sample_defs)

end
